theory Spec2Isabelle
  imports Main "HOL-Library.Char_ord" "HOL-Library.List_Lexorder"
begin

section \<open>Values of the program\<close>

text \<open>
  The records handled by \<^verbatim>\<open>nextdns_logs.py\<close> are whatever \<^verbatim>\<open>response.json()\<close>
  returns: Python values built from \<^verbatim>\<open>None\<close>, booleans, integers, strings, lists and
  dictionaries. A dictionary is kept as its list of items in insertion order (the order
  \<^verbatim>\<open>d.items()\<close> iterates in); its keys are pairwise distinct. Numbers are Python
  integers; non-integral numbers are outside the model.
\<close>

datatype json =
    JNull
  | JBool bool
  | JNum int
  | JStr string
  | JList "json list"
  | JObj "(string \<times> json) list"

text \<open>
  The exceptions that can travel through the program, each with its message.
  \<^verbatim>\<open>requests.exceptions.RequestException\<close> is the base class of what the HTTP library
  raises: a timeout, a failed connection (name resolution included), the \<^verbatim>\<open>HTTPError\<close>
  of \<^verbatim>\<open>raise_for_status()\<close> with the status it refused, and the \<^verbatim>\<open>JSONDecodeError\<close> of
  \<^verbatim>\<open>response.json()\<close> on a body that is not JSON.
\<close>

datatype request_failure =
    Timeout
  | ConnectionError
  | HTTPError nat
  | JSONDecodeError
  | OtherRequestFailure

datatype error =
    RequestException request_failure string
  | KeyboardInterrupt
  | AttributeError string
  | TypeError string
  | ValueError string
  | OtherException string

text \<open>Python's truth value of an object, as used by \<^verbatim>\<open>if x\<close> and \<^verbatim>\<open>not x\<close>.\<close>

fun truthy :: "json \<Rightarrow> bool" where
  "truthy JNull = False"
| "truthy (JBool b) = b"
| "truthy (JNum n) = (n \<noteq> 0)"
| "truthy (JStr s) = (s \<noteq> [])"
| "truthy (JList xs) = (xs \<noteq> [])"
| "truthy (JObj kvs) = (kvs \<noteq> [])"

fun type_name :: "json \<Rightarrow> string" where
  "type_name JNull = ''NoneType''"
| "type_name (JBool b) = ''bool''"
| "type_name (JNum n) = ''int''"
| "type_name (JStr s) = ''str''"
| "type_name (JList xs) = ''list''"
| "type_name (JObj kvs) = ''dict''"

text \<open>\<^verbatim>\<open>x.get(key, default)\<close>: only a dictionary has the method.\<close>

definition dict_get :: "json \<Rightarrow> string \<Rightarrow> json \<Rightarrow> error + json" where
  "dict_get x key dflt =
     (case x of
        JObj kvs \<Rightarrow> (case map_of kvs key of Some v \<Rightarrow> Inr v | None \<Rightarrow> Inr dflt)
      | _ \<Rightarrow> Inl (AttributeError ([CHR 0x27] @ type_name x @ [CHR 0x27]
                                   @ '' object has no attribute '' @ [CHR 0x27] @ ''get'' @ [CHR 0x27])))"

text \<open>
  Iterating a value, as \<^verbatim>\<open>list.extend\<close> does: a list yields its elements, a string
  its characters, a dictionary its keys; anything else is not iterable.
\<close>

definition py_iter :: "json \<Rightarrow> error + json list" where
  "py_iter x =
     (case x of
        JList xs \<Rightarrow> Inr xs
      | JStr s \<Rightarrow> Inr (map (\<lambda>c. JStr [c]) s)
      | JObj kvs \<Rightarrow> Inr (map (\<lambda>kv. JStr (fst kv)) kvs)
      | _ \<Rightarrow> Inl (TypeError ([CHR 0x27] @ type_name x @ [CHR 0x27] @ '' object is not iterable'')))"

subsection \<open>Decimal rendering of integers\<close>

definition digit_char :: "nat \<Rightarrow> char" where
  "digit_char d = ''0123456789'' ! d"

function str_nat :: "nat \<Rightarrow> string" where
  "str_nat n = (if n < 10 then [digit_char n] else str_nat (n div 10) @ [digit_char (n mod 10)])"
  by pat_completeness auto
termination
  by (relation "measure id") auto

declare str_nat.simps [simp del]

definition str_int :: "int \<Rightarrow> string" where
  "str_int i = (if i < 0 then CHR ''-'' # str_nat (nat (- i)) else str_nat (nat i))"

text \<open>
  \<^verbatim>\<open>str(v)\<close>. On a string it is the string itself, on an integer its decimal digits.
  On a list or a dictionary Python prints the \<^verbatim>\<open>repr\<close> of the container; that
  rendering is taken as the parameter \<open>repr\<close>.
\<close>

definition py_str :: "(json \<Rightarrow> string) \<Rightarrow> json \<Rightarrow> string" where
  "py_str repr v =
     (case v of
        JNull \<Rightarrow> ''None''
      | JBool b \<Rightarrow> (if b then ''True'' else ''False'')
      | JNum n \<Rightarrow> str_int n
      | JStr s \<Rightarrow> s
      | _ \<Rightarrow> repr v)"

text \<open>\<^verbatim>\<open>sep.join(xs)\<close>.\<close>

fun join :: "string \<Rightarrow> string list \<Rightarrow> string" where
  "join sep [] = []"
| "join sep [x] = x"
| "join sep (x # y # ys) = x @ sep @ join sep (y # ys)"

text \<open>
  \<^verbatim>\<open>dict(items)\<close>: a later pair with a key already present replaces the value and
  keeps the key's place; a new key goes to the end.
\<close>

fun dict_set :: "string \<Rightarrow> json \<Rightarrow> (string \<times> json) list \<Rightarrow> (string \<times> json) list" where
  "dict_set k v [] = [(k, v)]"
| "dict_set k v (p # ps) = (if fst p = k then (k, v) # ps else p # dict_set k v ps)"

definition dict_of_items :: "(string \<times> json) list \<Rightarrow> (string \<times> json) list" where
  "dict_of_items items = foldl (\<lambda>d kv. dict_set (fst kv) (snd kv) d) [] items"

section \<open>The flattener\<close>

text \<open>
  \<^verbatim>\<open>_flatten_dict(d, parent_key, sep)\<close>. \<open>flatten_loop\<close> is the \<^verbatim>\<open>for k, v in d.items()\<close>
  loop that collects \<^verbatim>\<open>items\<close>; \<open>flatten_dict\<close> is the method on the items of \<open>d\<close>, and returns
  \<^verbatim>\<open>dict(items)\<close>.
\<close>

fun flatten_dict :: "(json \<Rightarrow> string) \<Rightarrow> (string \<times> json) list \<Rightarrow> string \<Rightarrow> string \<Rightarrow> (string \<times> json) list"
  and flatten_loop :: "(json \<Rightarrow> string) \<Rightarrow> string \<Rightarrow> string \<Rightarrow> (string \<times> json) list \<Rightarrow> (string \<times> json) list"
where
  "flatten_dict repr d parent_key sep = dict_of_items (flatten_loop repr parent_key sep d)"
| "flatten_loop repr parent_key sep [] = []"
| "flatten_loop repr parent_key sep ((k, v) # rest) =
     (let new_key = (if parent_key \<noteq> [] then parent_key @ sep @ k else k)
      in (case v of
            JObj d' \<Rightarrow> flatten_dict repr d' new_key sep
          | JList vs \<Rightarrow>
              [(new_key, JStr (if vs \<noteq> [] then join '', '' (map (py_str repr) vs) else ''''))]
          | _ \<Rightarrow> [(new_key, v)])
         @ flatten_loop repr parent_key sep rest)"


text \<open>
  The exporter calls \<^verbatim>\<open>self._flatten_dict(log)\<close> with the defaults \<^verbatim>\<open>parent_key=''\<close> and
  \<^verbatim>\<open>sep='_'\<close>; the method starts with \<^verbatim>\<open>d.items()\<close>, which only a dictionary has.
\<close>

definition flatten_record :: "(json \<Rightarrow> string) \<Rightarrow> json \<Rightarrow> error + (string \<times> json) list" where
  "flatten_record repr log =
     (case log of
        JObj d \<Rightarrow> Inr (flatten_dict repr d [] ''_'')
      | _ \<Rightarrow> Inl (AttributeError ([CHR 0x27] @ type_name log @ [CHR 0x27]
                                   @ '' object has no attribute '' @ [CHR 0x27] @ ''items'' @ [CHR 0x27])))"

section \<open>Effects\<close>

text \<open>
  What the program does to the outside is kept as a trace of events, in order. The remote
  service is a parameter: a function from its own state and a request to the outcome of
  \<^verbatim>\<open>session.get(...)\<close>, \<^verbatim>\<open>raise_for_status()\<close> and \<^verbatim>\<open>response.json()\<close> taken together
  (the decoded body, or the exception one of the three raised) and the service's next state.
  Opening an output file is taken to succeed.
\<close>

record request =
  req_url :: string
  req_params :: "(string \<times> json) list"
  req_headers :: "(string \<times> string) list"
  req_timeout :: nat

datatype event =
    Stdout string
  | UsageError string
  | Request request
  | Sleep nat
  | OpenFile string
  | JsonDump string "json list"
  | CsvHeader string "string list"
  | CsvRow string "json list"

type_synonym 'w transport = "'w \<Rightarrow> request \<Rightarrow> (error + json) \<times> 'w"

text \<open>\<^verbatim>\<open>print(s)\<close> and \<^verbatim>\<open>print(s, end=e)\<close>.\<close>

definition print_end :: "string \<Rightarrow> string \<Rightarrow> event" where
  "print_end s e = Stdout (s @ e)"

definition print :: "string \<Rightarrow> event" where
  "print s = print_end s [CHR 0x0A]"

text \<open>\<^verbatim>\<open>time.sleep(0.5)\<close>, in milliseconds.\<close>

definition pacing_delay :: event where
  "pacing_delay = Sleep 500"

section \<open>The page fetcher\<close>

record downloader =
  self_api_key :: string
  self_profile_id :: string

definition BASE_URL :: string where
  "BASE_URL = ''https://api.nextdns.io''"

definition empty_page :: json where
  "empty_page = JObj [(''data'', JList []), (''meta'', JObj [])]"

text \<open>
  The request \<^verbatim>\<open>get_logs\<close> sends: the URL, the \<^verbatim>\<open>params\<close> dictionary, the header the
  session was given in \<^verbatim>\<open>__init__\<close>, and the timeout.
\<close>

definition logs_request :: "downloader \<Rightarrow> int \<Rightarrow> json \<Rightarrow> request" where
  "logs_request self limit cursor =
     (let url = BASE_URL @ ''/profiles/'' @ self_profile_id self @ ''/logs'';
          params = [(''limit'', JNum (min limit 100))]
                   @ (if truthy cursor then [(''cursor'', cursor)] else [])
      in \<lparr>req_url = url, req_params = params,
          req_headers = [(''X-Api-Key'', self_api_key self)], req_timeout = 30\<rparr>)"

definition get_logs ::
  "'w transport \<Rightarrow> downloader \<Rightarrow> int \<Rightarrow> json \<Rightarrow> 'w \<times> event list \<Rightarrow> (error + json) \<times> 'w \<times> event list" where
  "get_logs tr self limit cursor st =
     (let req = logs_request self limit cursor;
          (r, w') = tr (fst st) req;
          evs = snd st @ [Request req]
      in case r of
           Inr body \<Rightarrow> (Inr body, w', evs)
         | Inl (RequestException kind msg) \<Rightarrow>
             (Inr empty_page, w', evs @ [print (''Error fetching logs: '' @ msg)])
         | Inl e \<Rightarrow> (Inl e, w', evs))"

section \<open>The pagination driver\<close>

text \<open>\<^verbatim>\<open>max_logs and len(all_logs) >= max_logs\<close>: \<^verbatim>\<open>None\<close> and \<^verbatim>\<open>0\<close> are both false.\<close>

definition cap_reached :: "int option \<Rightarrow> json list \<Rightarrow> bool" where
  "cap_reached max_logs all_logs =
     (case max_logs of
        None \<Rightarrow> False
      | Some m \<Rightarrow> m \<noteq> 0 \<and> int (length all_logs) \<ge> m)"

text \<open>\<^verbatim>\<open>xs[:m]\<close>: a negative \<open>m\<close> counts from the end.\<close>

definition slice_to :: "'a list \<Rightarrow> int \<Rightarrow> 'a list" where
  "slice_to xs m = (if m < 0 then take (nat (int (length xs) + m)) xs else take (nat m) xs)"

datatype step =
    Continue "json list" json int
  | Break "json list"
  | Raise error

text \<open>
  One pass through the body of \<^verbatim>\<open>while True\<close>, from the values of \<^verbatim>\<open>all_logs\<close>,
  \<^verbatim>\<open>cursor\<close> and \<^verbatim>\<open>page\<close> at its start.
\<close>

definition loop_body ::
  "'w transport \<Rightarrow> downloader \<Rightarrow> int option \<Rightarrow> json list \<Rightarrow> json \<Rightarrow> int \<Rightarrow> 'w \<times> event list
     \<Rightarrow> step \<times> 'w \<times> event list" where
  "loop_body tr self max_logs all_logs cursor page st =
     (case get_logs tr self 100 cursor
             (fst st, snd st @ [print_end (''Fetching page '' @ str_int page @ ''...'') '' ''])
      of (Inl e, w, evs) \<Rightarrow> (Raise e, w, evs)
       | (Inr response, w, evs) \<Rightarrow>
      (case dict_get response ''data'' (JList []) of Inl e \<Rightarrow> (Raise e, w, evs) | Inr logs \<Rightarrow>
      (case dict_get response ''meta'' (JObj []) of Inl e \<Rightarrow> (Raise e, w, evs) | Inr meta \<Rightarrow>
       if \<not> truthy logs then (Break all_logs, w, evs @ [print ''No more logs.''])
       else
      (case py_iter logs of Inl e \<Rightarrow> (Raise e, w, evs) | Inr items \<Rightarrow>
       let all_logs' = all_logs @ items;
           evs' = evs @ [print (''Retrieved '' @ str_int (int (length items)) @ '' logs (Total: ''
                                @ str_int (int (length all_logs')) @ '')'')]
       in if cap_reached max_logs all_logs'
          then (Break (slice_to all_logs' (the max_logs)), w,
                evs' @ [print (''Reached maximum log limit of '' @ str_int (the max_logs))])
          else
      (case dict_get meta ''cursor'' JNull of Inl e \<Rightarrow> (Raise e, w, evs') | Inr cursor' \<Rightarrow>
       if \<not> truthy cursor' then (Break all_logs', w, evs' @ [print ''All logs downloaded.''])
       else (Continue all_logs' cursor' (page + 1), w, evs' @ [pacing_delay]))))))"

text \<open>
  The loop has no bound of its own: it is a partial function, whose value is \<open>None\<close>
  when the loop never ends.
\<close>

partial_function (option) download_loop ::
  "'w transport \<Rightarrow> downloader \<Rightarrow> int option \<Rightarrow> json list \<Rightarrow> json \<Rightarrow> int \<Rightarrow> 'w \<times> event list
     \<Rightarrow> ((error + json list) \<times> 'w \<times> event list) option" where
  "download_loop tr self max_logs all_logs cursor page st =
     (case loop_body tr self max_logs all_logs cursor page st of
        (s, st') \<Rightarrow>
          (case s of
             Continue all_logs' cursor' page' \<Rightarrow> download_loop tr self max_logs all_logs' cursor' page' st'
           | Break result \<Rightarrow> Some (Inr result, st')
           | Raise e \<Rightarrow> Some (Inl e, st')))"

declare download_loop.simps [code]

definition download_all_logs ::
  "'w transport \<Rightarrow> downloader \<Rightarrow> int option \<Rightarrow> 'w \<times> event list
     \<Rightarrow> ((error + json list) \<times> 'w \<times> event list) option" where
  "download_all_logs tr self max_logs st =
     download_loop tr self max_logs [] JNull 1 (fst st, snd st @ [print ''Starting log download...''])"

section \<open>The exporters\<close>

definition save_to_json :: "json list \<Rightarrow> string \<Rightarrow> event list \<Rightarrow> event list" where
  "save_to_json logs filename evs =
     evs @ [OpenFile filename, JsonDump filename logs,
            print (''Saved '' @ str_int (int (length logs)) @ '' logs to '' @ filename)]"

text \<open>The first loop of \<^verbatim>\<open>save_to_csv\<close>: \<^verbatim>\<open>fieldnames.update(self._flatten_dict(log).keys())\<close>.\<close>

fun collect_fieldnames :: "(json \<Rightarrow> string) \<Rightarrow> json list \<Rightarrow> string set \<Rightarrow> error + string set" where
  "collect_fieldnames repr [] fieldnames = Inr fieldnames"
| "collect_fieldnames repr (log # rest) fieldnames =
     (case flatten_record repr log of
        Inl e \<Rightarrow> Inl e
      | Inr flattened \<Rightarrow> collect_fieldnames repr rest (fieldnames \<union> set (map fst flattened)))"

text \<open>
  \<^verbatim>\<open>csv.DictWriter\<close> turns a dictionary into the cells of a row: a dictionary with a key
  outside \<^verbatim>\<open>fieldnames\<close> is refused (\<^verbatim>\<open>extrasaction='raise'\<close>, the default), and a field
  the dictionary lacks gets \<^verbatim>\<open>restval\<close>, the empty string by default. The cells are
  the values handed to the underlying writer, before it turns them into text.
\<close>

definition dict_to_list :: "(json \<Rightarrow> string) \<Rightarrow> string list \<Rightarrow> (string \<times> json) list \<Rightarrow> error + json list" where
  "dict_to_list repr fieldnames rowdict =
     (let wrong_fields = filter (\<lambda>k. k \<notin> set fieldnames) (map fst rowdict)
      in if wrong_fields \<noteq> []
         then Inl (ValueError (''dict contains fields not in fieldnames: ''
                               @ join '', '' (map (\<lambda>k. repr (JStr k)) wrong_fields)))
         else Inr (map (\<lambda>key. case map_of rowdict key of Some v \<Rightarrow> v | None \<Rightarrow> JStr []) fieldnames))"

text \<open>The second loop: \<^verbatim>\<open>writer.writerow(self._flatten_dict(log))\<close> for each record.\<close>

fun write_rows ::
  "(json \<Rightarrow> string) \<Rightarrow> string list \<Rightarrow> string \<Rightarrow> json list \<Rightarrow> event list \<Rightarrow> (error + unit) \<times> event list" where
  "write_rows repr fieldnames filename [] evs = (Inr (), evs)"
| "write_rows repr fieldnames filename (log # rest) evs =
     (case flatten_record repr log of
        Inl e \<Rightarrow> (Inl e, evs)
      | Inr flattened \<Rightarrow>
          (case dict_to_list repr fieldnames flattened of
             Inl e \<Rightarrow> (Inl e, evs)
           | Inr cells \<Rightarrow> write_rows repr fieldnames filename rest (evs @ [CsvRow filename cells])))"

definition save_to_csv ::
  "(json \<Rightarrow> string) \<Rightarrow> json list \<Rightarrow> string \<Rightarrow> event list \<Rightarrow> (error + unit) \<times> event list" where
  "save_to_csv repr logs filename evs =
     (if logs = [] then (Inr (), evs @ [print ''No logs to save to CSV''])
      else
        (case collect_fieldnames repr logs {} of
           Inl e \<Rightarrow> (Inl e, evs)
         | Inr names \<Rightarrow>
             let fieldnames = sorted_list_of_set names
             in (case write_rows repr fieldnames filename logs
                        (evs @ [OpenFile filename, CsvHeader filename fieldnames])
                 of (Inl e, evs') \<Rightarrow> (Inl e, evs')
                  | (Inr u, evs') \<Rightarrow>
                      (Inr (), evs' @ [print (''Saved '' @ str_int (int (length logs))
                                              @ '' logs to '' @ filename)]))))"

section \<open>The command line\<close>

record cli =
  flag_api_key :: "string option"
  flag_profile :: "string option"
  flag_output :: "string option"
  flag_max_logs :: "int option"
  flag_json_only :: bool
  flag_csv_only :: bool

record environ =
  NEXTDNS_API_KEY :: "string option"
  NEXTDNS_PROFILE_ID :: "string option"

record args =
  arg_api_key :: "string option"
  arg_profile :: "string option"
  arg_output :: string
  arg_max_logs :: "int option"
  arg_json_only :: bool
  arg_csv_only :: bool

text \<open>\<^verbatim>\<open>parser.parse_args()\<close>: a flag that is not given takes its default.\<close>

definition parse_args :: "cli \<Rightarrow> environ \<Rightarrow> args" where
  "parse_args c env =
     \<lparr>arg_api_key = (case flag_api_key c of Some k \<Rightarrow> Some k | None \<Rightarrow> NEXTDNS_API_KEY env),
      arg_profile = (case flag_profile c of Some p \<Rightarrow> Some p | None \<Rightarrow> NEXTDNS_PROFILE_ID env),
      arg_output = (case flag_output c of Some out \<Rightarrow> out | None \<Rightarrow> ''nextdns_logs''),
      arg_max_logs = flag_max_logs c,
      arg_json_only = flag_json_only c,
      arg_csv_only = flag_csv_only c\<rparr>"

text \<open>The truth value of an optional string: \<^verbatim>\<open>None\<close> and the empty string are false.\<close>

definition truthy_str :: "string option \<Rightarrow> bool" where
  "truthy_str x = (case x of None \<Rightarrow> False | Some s \<Rightarrow> s \<noteq> [])"

text \<open>
  \<^verbatim>\<open>parser.error(message)\<close> of the standard library's \<^verbatim>\<open>argparse\<close> prints the usage
  and the message to standard error and ends the process with status 2.
\<close>

definition parser_error :: "string \<Rightarrow> 'w \<Rightarrow> event list \<Rightarrow> nat \<times> 'w \<times> event list" where
  "parser_error message w evs = (2, w, evs @ [UsageError message])"

definition error_message :: "error \<Rightarrow> string" where
  "error_message e =
     (case e of
        RequestException kind m \<Rightarrow> m
      | KeyboardInterrupt \<Rightarrow> []
      | AttributeError m \<Rightarrow> m
      | TypeError m \<Rightarrow> m
      | ValueError m \<Rightarrow> m
      | OtherException m \<Rightarrow> m)"

text \<open>The two handlers of the \<^verbatim>\<open>try\<close> in \<^verbatim>\<open>main\<close>; both end in \<^verbatim>\<open>sys.exit(1)\<close>.\<close>

definition handle_exception :: "error \<Rightarrow> 'w \<Rightarrow> event list \<Rightarrow> nat \<times> 'w \<times> event list" where
  "handle_exception e w evs =
     (case e of
        KeyboardInterrupt \<Rightarrow>
          (1, w, evs @ [print ([CHR 0x0A, CHR 0x0A] @ ''Download interrupted by user.'')])
      | _ \<Rightarrow> (1, w, evs @ [print ([CHR 0x0A] @ ''Error: '' @ error_message e)]))"

text \<open>
  \<^verbatim>\<open>main\<close>, from the parsed flags, the environment and the state of the service to the
  exit status of the process, the final state of the service and the trace. The value
  is \<open>None\<close> when the download never ends.
\<close>

definition main ::
  "'w transport \<Rightarrow> (json \<Rightarrow> string) \<Rightarrow> cli \<Rightarrow> environ \<Rightarrow> 'w \<Rightarrow> (nat \<times> 'w \<times> event list) option" where
  "main tr repr c env w =
     (let a = parse_args c env
      in if \<not> truthy_str (arg_api_key a)
         then Some (parser_error
                ''--api-key is required (or set NEXTDNS_API_KEY environment variable)'' w [])
         else if \<not> truthy_str (arg_profile a)
         then Some (parser_error
                ''--profile is required (or set NEXTDNS_PROFILE_ID environment variable)'' w [])
         else
           let downloader = \<lparr>self_api_key = the (arg_api_key a),
                             self_profile_id = the (arg_profile a)\<rparr>
           in (case download_all_logs tr downloader (arg_max_logs a) (w, []) of
                 None \<Rightarrow> None
               | Some (Inl e, w', evs) \<Rightarrow> Some (handle_exception e w' evs)
               | Some (Inr logs, w', evs) \<Rightarrow>
                   if logs = [] then Some (0, w', evs @ [print ''No logs downloaded.''])
                   else
                     let evs1 = (if \<not> arg_csv_only a
                                 then save_to_json logs (arg_output a @ ''.json'') evs
                                 else evs)
                     in (case (if \<not> arg_json_only a
                               then save_to_csv repr logs (arg_output a @ ''.csv'') evs1
                               else (Inr (), evs1))
                         of (Inl e, evs2) \<Rightarrow> Some (handle_exception e w' evs2)
                          | (Inr u, evs2) \<Rightarrow>
                              Some (0, w', evs2 @ [print ([CHR 0x0A] @ ''Download complete! Total logs: ''
                                                           @ str_int (int (length logs)))]))))"

section \<open>Reading a trace\<close>

fun is_request :: "event \<Rightarrow> bool" where
  "is_request (Request r) = True"
| "is_request e = False"

fun is_sleep :: "event \<Rightarrow> bool" where
  "is_sleep (Sleep ms) = True"
| "is_sleep e = False"

fun is_file_event :: "event \<Rightarrow> bool" where
  "is_file_event (OpenFile f) = True"
| "is_file_event (JsonDump f logs) = True"
| "is_file_event (CsvHeader f names) = True"
| "is_file_event (CsvRow f cells) = True"
| "is_file_event e = False"

definition count_requests :: "event list \<Rightarrow> nat" where
  "count_requests evs = length (filter is_request evs)"

definition count_sleeps :: "event list \<Rightarrow> nat" where
  "count_sleeps evs = length (filter is_sleep evs)"

text \<open>The requests and the delays of a trace, in order.\<close>

definition pacing_events :: "event list \<Rightarrow> event list" where
  "pacing_events evs = filter (\<lambda>e. is_request e \<or> is_sleep e) evs"

text \<open>A list of requests with the pacing delay between each two consecutive ones.\<close>

fun with_delays :: "request list \<Rightarrow> event list" where
  "with_delays [] = []"
| "with_delays [r] = [Request r]"
| "with_delays (r # r' # rs) = Request r # pacing_delay # with_delays (r' # rs)"

definition file_events :: "event list \<Rightarrow> event list" where
  "file_events evs = filter is_file_event evs"

text \<open>The parts of what a run of the driver returns.\<close>

definition returned :: "('a \<times> 'w \<times> event list) option \<Rightarrow> 'a option" where
  "returned run = map_option fst run"

definition trace :: "('a \<times> 'w \<times> event list) option \<Rightarrow> event list option" where
  "trace run = map_option (\<lambda>r. snd (snd r)) run"

section \<open>A simulated service\<close>

text \<open>
  A service that holds a fixed list of pages. The first request (no cursor) gets page 0;
  page \<open>i\<close> comes with the cursor of page \<open>i + 1\<close> when there is such a page, and with no
  cursor otherwise. The cursor of page \<open>i\<close> is a string of \<open>i\<close> characters. The state of
  the service counts the requests it has served.
\<close>

definition sim_cursor :: "nat \<Rightarrow> json" where
  "sim_cursor i = JStr (replicate i CHR ''c'')"

definition sim_index :: "request \<Rightarrow> nat" where
  "sim_index req = (case map_of (req_params req) ''cursor'' of Some (JStr s) \<Rightarrow> length s | _ \<Rightarrow> 0)"

definition sim_body :: "json list list \<Rightarrow> nat \<Rightarrow> json" where
  "sim_body pages i =
     (if i < length pages
      then JObj [(''data'', JList (pages ! i)),
                 (''meta'', JObj (if Suc i < length pages then [(''cursor'', sim_cursor (Suc i))] else []))]
      else empty_page)"

definition sim_transport :: "json list list \<Rightarrow> nat transport" where
  "sim_transport pages w req = (Inr (sim_body pages (sim_index req)), Suc w)"

text \<open>A record with one field, and the downloader of the examples.\<close>

definition log_entry :: "int \<Rightarrow> json" where
  "log_entry n = JObj [(''id'', JNum n)]"

definition example_downloader :: downloader where
  "example_downloader = \<lparr>self_api_key = ''key'', self_profile_id = ''abc123''\<rparr>"

text \<open>Three pages of two records each, then an empty page.\<close>

definition three_pages_then_empty :: "json list list" where
  "three_pages_then_empty =
     [[log_entry 1, log_entry 2], [log_entry 3, log_entry 4], [log_entry 5, log_entry 6], []]"

text \<open>The same three pages with nothing after them: the third page carries no cursor.\<close>

definition three_pages :: "json list list" where
  "three_pages = [[log_entry 1, log_entry 2], [log_entry 3, log_entry 4], [log_entry 5, log_entry 6]]"

text \<open>A service that gives the same answer to every request.\<close>

definition constant_service :: "error + json \<Rightarrow> nat transport" where
  "constant_service answer w req = (answer, Suc w)"

text \<open>
  The value of \<^verbatim>\<open>cursor\<close> with which the driver asks the simulated service for page
  \<open>i\<close>: \<^verbatim>\<open>None\<close> for the first page, the cursor the service handed out otherwise.
\<close>

definition loop_cursor :: "nat \<Rightarrow> json" where
  "loop_cursor i = (if i = 0 then JNull else sim_cursor i)"

text \<open>A list of records cut at a cap that is not negative; the cap 0 cuts nothing.\<close>

definition capped :: "int option \<Rightarrow> json list \<Rightarrow> json list" where
  "capped cap xs = (case cap of None \<Rightarrow> xs | Some c \<Rightarrow> if c = 0 then xs else take (nat c) xs)"

text \<open>The exit status of a run of \<^verbatim>\<open>main\<close>.\<close>

definition exit_status :: "(nat \<times> 'w \<times> event list) option \<Rightarrow> nat option" where
  "exit_status run = map_option fst run"

text \<open>
  Command lines and an environment for the examples, and a stand-in for Python's
  \<^verbatim>\<open>repr\<close> of a container.
\<close>

definition example_cli :: cli where
  "example_cli = \<lparr>flag_api_key = Some ''key'', flag_profile = Some ''abc123'',
                   flag_output = None, flag_max_logs = None,
                   flag_json_only = False, flag_csv_only = False\<rparr>"

definition both_only_cli :: cli where
  "both_only_cli = example_cli\<lparr>flag_json_only := True, flag_csv_only := True\<rparr>"

definition no_key_cli :: cli where
  "no_key_cli = example_cli\<lparr>flag_api_key := None\<rparr>"

definition empty_environ :: environ where
  "empty_environ = \<lparr>NEXTDNS_API_KEY = None, NEXTDNS_PROFILE_ID = None\<rparr>"

definition example_repr :: "json \<Rightarrow> string" where
  "example_repr v = ''<'' @ type_name v @ ''>''"


text \<open>
  The CSV export in the words of its description, for records that are dictionaries
  (each given by its items): the header is the sorted union of the flattened keys of all
  the records, and the row of a record has, under each key of the header, the record's
  flattened value, or the empty string when the record has no such key.
\<close>

definition sorted_key_union :: "(json \<Rightarrow> string) \<Rightarrow> (string \<times> json) list list \<Rightarrow> string list" where
  "sorted_key_union repr ds =
     sorted_list_of_set (\<Union>d \<in> set ds. fst ` set (flatten_dict repr d [] ''_''))"

definition row_cells :: "(json \<Rightarrow> string) \<Rightarrow> string list \<Rightarrow> (string \<times> json) list \<Rightarrow> json list" where
  "row_cells repr header d =
     map (\<lambda>key. case map_of (flatten_dict repr d [] ''_'') key of Some v \<Rightarrow> v | None \<Rightarrow> JStr [])
         header"

text \<open>Two records for the examples of the CSV export: neither has the keys of the other.\<close>

definition example_record_1 :: "(string \<times> json) list" where
  "example_record_1 = [(''b'', JNum 1), (''a'', JObj [(''x'', JStr ''u'')])]"

definition example_record_2 :: "(string \<times> json) list" where
  "example_record_2 = [(''c'', JList [JNum 1, JBool True, JNull])]"







section \<open>One fetch, one pass of the loop\<close>

lemma get_logs_body:
  "tr w (logs_request self limit cursor) = (Inr body, w') \<Longrightarrow>
   get_logs tr self limit cursor (w, evs)
     = (Inr body, w', evs @ [Request (logs_request self limit cursor)])"
  by (simp add: get_logs_def)

lemma get_logs_request_exception:
  "tr w (logs_request self limit cursor) = (Inl (RequestException kind msg), w') \<Longrightarrow>
   get_logs tr self limit cursor (w, evs)
     = (Inr empty_page, w',
        evs @ [Request (logs_request self limit cursor), print (''Error fetching logs: '' @ msg)])"
  by (simp add: get_logs_def)

lemma loop_body_falsy:
  assumes "get_logs tr self 100 cursor
             (w, evs @ [print_end (''Fetching page '' @ str_int page @ ''...'') '' ''])
           = (Inr response, w', evs')"
    and "dict_get response ''data'' (JList []) = Inr logs"
    and "\<not> truthy logs"
  shows "loop_body tr self max_logs all_logs cursor page (w, evs)
           = (Break all_logs, w', evs' @ [print ''No more logs.''])"
proof -
  from assms(2) obtain kvs where "response = JObj kvs"
    by (cases response) (simp_all add: dict_get_def)
  then obtain meta where "dict_get response ''meta'' (JObj []) = Inr meta"
    by (cases "map_of kvs ''meta''") (auto simp: dict_get_def)
  with assms show ?thesis by (simp add: loop_body_def)
qed

lemma loop_body_items:
  assumes "get_logs tr self 100 cursor
             (w, evs @ [print_end (''Fetching page '' @ str_int page @ ''...'') '' ''])
           = (Inr (JObj kvs), w', evs')"
    and "map_of kvs ''data'' = Some (JList items)"
    and "items \<noteq> []"
    and "dict_get (JObj kvs) ''meta'' (JObj []) = Inr meta"
    and "dict_get meta ''cursor'' JNull = Inr cursor'"
  shows "loop_body tr self max_logs all_logs cursor page (w, evs) =
     (let all_logs' = all_logs @ items;
          evs'' = evs' @ [print (''Retrieved '' @ str_int (int (length items)) @ '' logs (Total: ''
                                @ str_int (int (length all_logs')) @ '')'')]
      in if cap_reached max_logs all_logs'
         then (Break (slice_to all_logs' (the max_logs)), w',
               evs'' @ [print (''Reached maximum log limit of '' @ str_int (the max_logs))])
         else if \<not> truthy cursor'
         then (Break all_logs', w', evs'' @ [print ''All logs downloaded.''])
         else (Continue all_logs' cursor' (page + 1), w', evs'' @ [pacing_delay]))"
  using assms by (simp add: loop_body_def dict_get_def py_iter_def Let_def)

lemma download_loop_break:
  "loop_body tr self max_logs all_logs cursor page st = (Break result, st') \<Longrightarrow>
   download_loop tr self max_logs all_logs cursor page st = Some (Inr result, st')"
  by (subst download_loop.simps) simp

lemma download_loop_raise:
  "loop_body tr self max_logs all_logs cursor page st = (Raise e, st') \<Longrightarrow>
   download_loop tr self max_logs all_logs cursor page st = Some (Inl e, st')"
  by (subst download_loop.simps) simp

lemma download_loop_continue:
  "loop_body tr self max_logs all_logs cursor page st = (Continue all_logs' cursor' page', st') \<Longrightarrow>
   download_loop tr self max_logs all_logs cursor page st
     = download_loop tr self max_logs all_logs' cursor' page' st'"
  by (subst download_loop.simps) simp

section \<open>A failed fetch\<close>

text \<open>
  C5. Whatever the kind of the \<^verbatim>\<open>RequestException\<close> (timeout, connection or name
  resolution error, refused status, body that is not JSON), \<^verbatim>\<open>get_logs\<close> does not raise:
  it prints the failure and returns the page with an empty record list and an empty
  \<^verbatim>\<open>meta\<close>, the very value it returns when the service answers with that page. The
  driver, which calls it with the default limit, then leaves the loop as at the end of
  the stream.
\<close>

theorem get_logs_transport_failure:
  assumes "tr w (logs_request self limit cursor) = (Inl (RequestException kind msg), w')"
  shows "get_logs tr self limit cursor (w, evs)
           = (Inr empty_page, w',
              evs @ [Request (logs_request self limit cursor),
                     print (''Error fetching logs: '' @ msg)])
         \<and> fst (get_logs tr self limit cursor (w, evs))
           = fst (get_logs (constant_service (Inr empty_page)) self limit cursor (w, evs))
         \<and> dict_get empty_page ''data'' (JList []) = Inr (JList [])
         \<and> dict_get empty_page ''meta'' (JObj []) = Inr (JObj [])
         \<and> dict_get (JObj []) ''cursor'' JNull = Inr JNull
         \<and> (limit = 100 \<longrightarrow>
              download_loop tr self max_logs all_logs cursor page (w, evs)
                = Some (Inr all_logs, w',
                        evs @ [print_end (''Fetching page '' @ str_int page @ ''...'') '' '',
                               Request (logs_request self 100 cursor),
                               print (''Error fetching logs: '' @ msg),
                               print ''No more logs.'']))"
proof -
  have g: "get_logs tr self limit cursor (w, evs)
           = (Inr empty_page, w',
              evs @ [Request (logs_request self limit cursor),
                     print (''Error fetching logs: '' @ msg)])" for evs
    using assms by (rule get_logs_request_exception)
  have same: "fst (get_logs (constant_service (Inr empty_page)) self limit cursor (w, evs))
                = Inr empty_page"
    by (simp add: get_logs_def constant_service_def)
  have d: "dict_get empty_page ''data'' (JList []) = Inr (JList [])"
    by (simp add: dict_get_def empty_page_def)
  have loop: "download_loop tr self max_logs all_logs cursor page (w, evs)
                = Some (Inr all_logs, w',
                        evs @ [print_end (''Fetching page '' @ str_int page @ ''...'') '' '',
                               Request (logs_request self 100 cursor),
                               print (''Error fetching logs: '' @ msg),
                               print ''No more logs.''])" if "limit = 100"
  proof -
    let ?evs = "evs @ [print_end (''Fetching page '' @ str_int page @ ''...'') '' '']"
    have "loop_body tr self max_logs all_logs cursor page (w, evs)
            = (Break all_logs, w',
               (?evs @ [Request (logs_request self 100 cursor),
                        print (''Error fetching logs: '' @ msg)]) @ [print ''No more logs.''])"
      using g [of ?evs] d that by (intro loop_body_falsy [where logs = "JList []"]) simp_all
    then show ?thesis by (simp add: download_loop_break)
  qed
  show ?thesis
    using g [of evs] same d loop by (simp add: dict_get_def empty_page_def)
qed

theorem get_logs_transport_failure_witness:
  "constant_service (Inl (RequestException Timeout ''timed out'')) 0
       (logs_request example_downloader 100 JNull)
     = (Inl (RequestException Timeout ''timed out''), 1)
   \<and> get_logs (constant_service (Inl (RequestException Timeout ''timed out'')))
         example_downloader 100 JNull (0, [])
     = (Inr empty_page, 1,
        [Request (logs_request example_downloader 100 JNull),
         print ''Error fetching logs: timed out''])
   \<and> download_loop (constant_service (Inl (RequestException Timeout ''timed out'')))
         example_downloader None [] JNull 1 (0, [])
     = Some (Inr [], 1,
             [print_end ''Fetching page 1...'' '' '',
              Request (logs_request example_downloader 100 JNull),
              print ''Error fetching logs: timed out'',
              print ''No more logs.''])"
proof -
  have h: "constant_service (Inl (RequestException Timeout ''timed out'')) 0
       (logs_request example_downloader 100 JNull)
     = (Inl (RequestException Timeout ''timed out''), 1)"
    by (simp add: constant_service_def)
  have s: "str_int 1 = ''1''"
    by (simp add: str_int_def str_nat.simps digit_char_def)
  show ?thesis
    using h get_logs_transport_failure
            [where tr = "constant_service (Inl (RequestException Timeout ''timed out''))"
               and w = 0 and self = example_downloader and limit = 100 and cursor = JNull
               and kind = Timeout and msg = "''timed out''" and w' = 1 and evs = "[]"
               and max_logs = None and all_logs = "[]" and page = 1]
    by (simp add: s)
qed

section \<open>The exits of the loop\<close>

text \<open>
  C6. From any values of \<^verbatim>\<open>all_logs\<close>, \<^verbatim>\<open>cursor\<close> and \<^verbatim>\<open>page\<close>, and with any cap: when
  the fetched page has an empty record list (or no \<^verbatim>\<open>data\<close> at all), the loop ends in
  that pass, whatever else the page holds, a cursor included. The result is
  \<^verbatim>\<open>all_logs\<close> as it was, and the trace has the one request of that pass and nothing
  after the message.
\<close>

theorem empty_page_ends_loop:
  assumes "tr w (logs_request self 100 cursor) = (Inr (JObj kvs), w')"
    and "dict_get (JObj kvs) ''data'' (JList []) = Inr logs"
    and "\<not> truthy logs"
  shows "download_loop tr self max_logs all_logs cursor page (w, evs) =
           Some (Inr all_logs, w',
                 evs @ [print_end (''Fetching page '' @ str_int page @ ''...'') '' '',
                        Request (logs_request self 100 cursor),
                        print ''No more logs.''])"
proof -
  let ?evs = "evs @ [print_end (''Fetching page '' @ str_int page @ ''...'') '' '']"
  have g: "get_logs tr self 100 cursor (w, ?evs)
             = (Inr (JObj kvs), w', ?evs @ [Request (logs_request self 100 cursor)])"
    using assms(1) by (rule get_logs_body)
  have "loop_body tr self max_logs all_logs cursor page (w, evs)
          = (Break all_logs, w',
             (?evs @ [Request (logs_request self 100 cursor)]) @ [print ''No more logs.''])"
    using g assms(2,3) by (rule loop_body_falsy)
  then show ?thesis by (simp add: download_loop_break)
qed

theorem empty_page_ends_loop_witness:
  "constant_service
       (Inr (JObj [(''data'', JList []), (''meta'', JObj [(''cursor'', JStr ''next'')])])) 1
       (logs_request example_downloader 100 (JStr ''c''))
     = (Inr (JObj [(''data'', JList []), (''meta'', JObj [(''cursor'', JStr ''next'')])]), 2)
   \<and> dict_get (JObj [(''data'', JList []), (''meta'', JObj [(''cursor'', JStr ''next'')])])
         ''data'' (JList []) = Inr (JList [])
   \<and> \<not> truthy (JList [])
   \<and> download_loop
         (constant_service
            (Inr (JObj [(''data'', JList []), (''meta'', JObj [(''cursor'', JStr ''next'')])])))
         example_downloader None [log_entry 1] (JStr ''c'') 2 (1, [])
     = Some (Inr [log_entry 1], 2,
             [print_end ''Fetching page 2...'' '' '',
              Request (logs_request example_downloader 100 (JStr ''c'')),
              print ''No more logs.''])"
proof -
  let ?body = "JObj [(''data'', JList []), (''meta'', JObj [(''cursor'', JStr ''next'')])]"
  have h1: "constant_service (Inr ?body) 1 (logs_request example_downloader 100 (JStr ''c''))
              = (Inr ?body, 2)"
    by (simp add: constant_service_def)
  have h2: "dict_get ?body ''data'' (JList []) = Inr (JList [])"
    by (simp add: dict_get_def)
  have h3: "\<not> truthy (JList [])" by simp
  have s: "str_int 2 = ''2''"
    by (simp add: str_int_def str_nat.simps digit_char_def)
  show ?thesis
    using h1 h2 h3
      empty_page_ends_loop
        [where tr = "constant_service (Inr ?body)" and w = 1 and self = example_downloader
           and cursor = "JStr ''c''" and w' = 2 and logs = "JList []" and max_logs = None
           and all_logs = "[log_entry 1]" and page = 2 and evs = "[]"
           and kvs = "[(''data'', JList []), (''meta'', JObj [(''cursor'', JStr ''next'')])]"]
    by (simp add: s)
qed

text \<open>
  C7. From any values of \<^verbatim>\<open>all_logs\<close>, \<^verbatim>\<open>cursor\<close> and \<^verbatim>\<open>page\<close>, and with any cap: when
  the fetched page has a non-empty record list and no cursor (\<^verbatim>\<open>meta\<close> is missing or a
  dictionary, and \<^verbatim>\<open>meta.get('cursor')\<close> is \<^verbatim>\<open>None\<close>), the loop ends in that pass, with
  the records of the page appended to \<^verbatim>\<open>all_logs\<close>. When the cap is not reached the
  result is the whole buffer and the last message is that of the end of the stream;
  there is no delay and no further request.
\<close>

theorem last_page_ends_loop:
  assumes "tr w (logs_request self 100 cursor) = (Inr (JObj kvs), w')"
    and "map_of kvs ''data'' = Some (JList items)"
    and "items \<noteq> []"
    and "dict_get (JObj kvs) ''meta'' (JObj []) = Inr meta"
    and "dict_get meta ''cursor'' JNull = Inr JNull"
  shows "download_loop tr self max_logs all_logs cursor page (w, evs) =
           Some (Inr (if cap_reached max_logs (all_logs @ items)
                      then slice_to (all_logs @ items) (the max_logs)
                      else all_logs @ items),
                 w',
                 evs @ [print_end (''Fetching page '' @ str_int page @ ''...'') '' '',
                        Request (logs_request self 100 cursor),
                        print (''Retrieved '' @ str_int (int (length items)) @ '' logs (Total: ''
                               @ str_int (int (length (all_logs @ items))) @ '')''),
                        if cap_reached max_logs (all_logs @ items)
                        then print (''Reached maximum log limit of '' @ str_int (the max_logs))
                        else print ''All logs downloaded.''])"
proof -
  let ?evs = "evs @ [print_end (''Fetching page '' @ str_int page @ ''...'') '' '']"
  have g: "get_logs tr self 100 cursor (w, ?evs)
             = (Inr (JObj kvs), w', ?evs @ [Request (logs_request self 100 cursor)])"
    using assms(1) by (rule get_logs_body)
  show ?thesis
    by (rule download_loop_break)
       (simp add: loop_body_items [OF g assms(2,3,4,5)] Let_def)
qed

theorem last_page_ends_loop_witness:
  "constant_service (Inr (JObj [(''data'', JList [log_entry 2, log_entry 3])])) 1
       (logs_request example_downloader 100 (JStr ''c''))
     = (Inr (JObj [(''data'', JList [log_entry 2, log_entry 3])]), 2)
   \<and> map_of [(''data'', JList [log_entry 2, log_entry 3])] ''data''
     = Some (JList [log_entry 2, log_entry 3])
   \<and> [log_entry 2, log_entry 3] \<noteq> []
   \<and> dict_get (JObj [(''data'', JList [log_entry 2, log_entry 3])]) ''meta'' (JObj [])
     = Inr (JObj [])
   \<and> dict_get (JObj []) ''cursor'' JNull = Inr JNull
   \<and> download_loop (constant_service (Inr (JObj [(''data'', JList [log_entry 2, log_entry 3])])))
         example_downloader None [log_entry 1] (JStr ''c'') 2 (1, [])
     = Some (Inr [log_entry 1, log_entry 2, log_entry 3], 2,
             [print_end ''Fetching page 2...'' '' '',
              Request (logs_request example_downloader 100 (JStr ''c'')),
              print ''Retrieved 2 logs (Total: 3)'',
              print ''All logs downloaded.''])"
proof -
  let ?kvs = "[(''data'', JList [log_entry 2, log_entry 3])]"
  have h1: "constant_service (Inr (JObj ?kvs)) 1 (logs_request example_downloader 100 (JStr ''c''))
              = (Inr (JObj ?kvs), 2)"
    by (simp add: constant_service_def)
  have h2: "map_of ?kvs ''data'' = Some (JList [log_entry 2, log_entry 3])" by simp
  have h3: "[log_entry 2, log_entry 3] \<noteq> []" by simp
  have h4: "dict_get (JObj ?kvs) ''meta'' (JObj []) = Inr (JObj [])"
    by (simp add: dict_get_def)
  have h5: "dict_get (JObj []) ''cursor'' JNull = Inr JNull"
    by (simp add: dict_get_def)
  have s: "str_int 2 = ''2''" "str_int 3 = ''3''"
    by (simp_all add: str_int_def str_nat.simps digit_char_def)
  show ?thesis
    using h1 h2 h3 h4 h5
      last_page_ends_loop
        [where tr = "constant_service (Inr (JObj ?kvs))" and w = 1 and self = example_downloader
           and cursor = "JStr ''c''" and w' = 2 and kvs = ?kvs
           and items = "[log_entry 2, log_entry 3]" and meta = "JObj []" and max_logs = None
           and all_logs = "[log_entry 1]" and page = 2 and evs = "[]"]
    by (simp add: s cap_reached_def)
qed

text \<open>
  C10. A cursor that is the empty string counts as no cursor, in both places where the
  program looks at it. In the loop, a page with records, below the cap, whose
  \<^verbatim>\<open>meta.get('cursor')\<close> is the empty string ends the loop with the message of the end of
  the stream, without a delay or another request, as a page without cursor does. In \<^verbatim>\<open>get_logs\<close>, the request built
  for the empty string is the request built for \<^verbatim>\<open>None\<close>, with no \<^verbatim>\<open>cursor\<close> parameter.
\<close>

theorem empty_cursor_is_no_cursor:
  assumes "tr w (logs_request self 100 cursor) = (Inr (JObj kvs), w')"
    and "map_of kvs ''data'' = Some (JList items)"
    and "items \<noteq> []"
    and "dict_get (JObj kvs) ''meta'' (JObj []) = Inr meta"
    and "dict_get meta ''cursor'' JNull = Inr (JStr [])"
    and "\<not> cap_reached max_logs (all_logs @ items)"
  shows "download_loop tr self max_logs all_logs cursor page (w, evs) =
           Some (Inr (all_logs @ items), w',
                 evs @ [print_end (''Fetching page '' @ str_int page @ ''...'') '' '',
                        Request (logs_request self 100 cursor),
                        print (''Retrieved '' @ str_int (int (length items)) @ '' logs (Total: ''
                               @ str_int (int (length (all_logs @ items))) @ '')''),
                        print ''All logs downloaded.''])
         \<and> logs_request self limit (JStr []) = logs_request self limit JNull
         \<and> req_params (logs_request self limit (JStr [])) = [(''limit'', JNum (min limit 100))]
         \<and> get_logs tr' self limit (JStr []) st = get_logs tr' self limit JNull st"
proof -
  let ?evs = "evs @ [print_end (''Fetching page '' @ str_int page @ ''...'') '' '']"
  have g: "get_logs tr self 100 cursor (w, ?evs)
             = (Inr (JObj kvs), w', ?evs @ [Request (logs_request self 100 cursor)])"
    using assms(1) by (rule get_logs_body)
  have loop: "download_loop tr self max_logs all_logs cursor page (w, evs) =
           Some (Inr (all_logs @ items), w',
                 evs @ [print_end (''Fetching page '' @ str_int page @ ''...'') '' '',
                        Request (logs_request self 100 cursor),
                        print (''Retrieved '' @ str_int (int (length items)) @ '' logs (Total: ''
                               @ str_int (int (length (all_logs @ items))) @ '')''),
                        print ''All logs downloaded.''])"
    using assms(6)
    by (intro download_loop_break)
       (simp add: loop_body_items [OF g assms(2,3,4,5)] Let_def)
  have req: "logs_request self limit (JStr []) = logs_request self limit JNull"
    by (simp add: logs_request_def)
  have params: "req_params (logs_request self limit (JStr [])) = [(''limit'', JNum (min limit 100))]"
    by (simp add: logs_request_def)
  have fetch: "get_logs tr' self limit (JStr []) st = get_logs tr' self limit JNull st"
    by (simp add: get_logs_def req)
  from loop req params fetch show ?thesis by simp
qed

theorem empty_cursor_is_no_cursor_witness:
  "constant_service
       (Inr (JObj [(''data'', JList [log_entry 2]), (''meta'', JObj [(''cursor'', JStr [])])])) 1
       (logs_request example_downloader 100 (JStr ''c''))
     = (Inr (JObj [(''data'', JList [log_entry 2]), (''meta'', JObj [(''cursor'', JStr [])])]), 2)
   \<and> map_of [(''data'', JList [log_entry 2]), (''meta'', JObj [(''cursor'', JStr [])])] ''data''
     = Some (JList [log_entry 2])
   \<and> [log_entry 2] \<noteq> []
   \<and> dict_get (JObj [(''data'', JList [log_entry 2]), (''meta'', JObj [(''cursor'', JStr [])])])
         ''meta'' (JObj [])
     = Inr (JObj [(''cursor'', JStr [])])
   \<and> dict_get (JObj [(''cursor'', JStr [])]) ''cursor'' JNull = Inr (JStr [])
   \<and> \<not> cap_reached (Some 5) ([log_entry 1] @ [log_entry 2])
   \<and> download_loop
         (constant_service
            (Inr (JObj [(''data'', JList [log_entry 2]), (''meta'', JObj [(''cursor'', JStr [])])])))
         example_downloader (Some 5) [log_entry 1] (JStr ''c'') 2 (1, [])
     = Some (Inr [log_entry 1, log_entry 2], 2,
             [print_end ''Fetching page 2...'' '' '',
              Request (logs_request example_downloader 100 (JStr ''c'')),
              print ''Retrieved 1 logs (Total: 2)'',
              print ''All logs downloaded.''])
   \<and> req_params (logs_request example_downloader 100 (JStr [])) = [(''limit'', JNum 100)]"
proof -
  let ?kvs = "[(''data'', JList [log_entry 2]), (''meta'', JObj [(''cursor'', JStr [])])]"
  have h1: "constant_service (Inr (JObj ?kvs)) 1 (logs_request example_downloader 100 (JStr ''c''))
              = (Inr (JObj ?kvs), 2)"
    by (simp add: constant_service_def)
  have h2: "map_of ?kvs ''data'' = Some (JList [log_entry 2])" by simp
  have h3: "[log_entry 2] \<noteq> []" by simp
  have h4: "dict_get (JObj ?kvs) ''meta'' (JObj []) = Inr (JObj [(''cursor'', JStr [])])"
    by (simp add: dict_get_def)
  have h5: "dict_get (JObj [(''cursor'', JStr [])]) ''cursor'' JNull = Inr (JStr [])"
    by (simp add: dict_get_def)
  have h6: "\<not> cap_reached (Some 5) ([log_entry 1] @ [log_entry 2])"
    by (simp add: cap_reached_def)
  have s: "str_int 1 = ''1''" "str_int 2 = ''2''"
    by (simp_all add: str_int_def str_nat.simps digit_char_def)
  show ?thesis
    using h1 h2 h3 h4 h5 h6
      empty_cursor_is_no_cursor
        [where tr = "constant_service (Inr (JObj ?kvs))" and w = 1 and self = example_downloader
           and cursor = "JStr ''c''" and w' = 2 and kvs = ?kvs
           and items = "[log_entry 2]" and meta = "JObj [(''cursor'', JStr [])]"
           and max_logs = "Some 5" and all_logs = "[log_entry 1]" and page = 2 and evs = "[]"
           and limit = 100 and tr' = "constant_service (Inr (JObj ?kvs))" and st = "(1, [])"]
    by (simp add: s logs_request_def)
qed

section \<open>Pacing\<close>

lemma pacing_events_append [simp]:
  "pacing_events (xs @ ys) = pacing_events xs @ pacing_events ys"
  by (simp add: pacing_events_def)

lemma pacing_events_simps [simp]:
  "pacing_events [] = []"
  "pacing_events (print s # evs) = pacing_events evs"
  "pacing_events (print_end s e # evs) = pacing_events evs"
  "pacing_events (Request r # evs) = Request r # pacing_events evs"
  "pacing_events (pacing_delay # evs) = pacing_delay # pacing_events evs"
  by (simp_all add: pacing_events_def print_def print_end_def pacing_delay_def)

lemma get_logs_pacing:
  "get_logs tr self limit cursor (w, evs) = (r, w', evs') \<Longrightarrow>
   pacing_events evs' = pacing_events evs @ [Request (logs_request self limit cursor)]"
  by (auto simp: get_logs_def Let_def split: prod.splits sum.splits error.splits)

text \<open>
  A pass of the loop sends one request; the delay follows it exactly when the loop
  goes on.
\<close>

lemma loop_body_pacing:
  assumes "loop_body tr self max_logs all_logs cursor page (w, evs) = (s, w', evs')"
  shows "pacing_events evs'
           = pacing_events evs @ Request (logs_request self 100 cursor)
               # (case s of Continue a c p \<Rightarrow> [pacing_delay] | _ \<Rightarrow> [])"
proof -
  obtain r w1 evs1 where g:
    "get_logs tr self 100 cursor
       (w, evs @ [print_end (''Fetching page '' @ str_int page @ ''...'') '' '']) = (r, w1, evs1)"
    by (metis prod_cases3)
  have p: "pacing_events evs1 = pacing_events evs @ [Request (logs_request self 100 cursor)]"
    using get_logs_pacing [OF g] by simp
  show ?thesis
    using assms g p
    by (auto simp: loop_body_def Let_def split: sum.splits if_splits)
qed

lemma download_loop_pacing:
  assumes "download_loop tr self max_logs all_logs cursor page st = Some y"
  shows "\<exists>reqs. reqs \<noteq> []
           \<and> pacing_events (snd (snd y)) = pacing_events (snd st) @ with_delays reqs"
  using assms
proof (induction rule: download_loop.raw_induct [rotated 1, consumes 1, case_names pass])
  case (pass f tr self max_logs all_logs cursor page st y)
  obtain s w' evs' where
    lb: "loop_body tr self max_logs all_logs cursor page (fst st, snd st) = (s, w', evs')"
    by (metis prod_cases3)
  note pe = loop_body_pacing [OF lb]
  let ?req = "logs_request self 100 cursor"
  show ?case
  proof (cases s)
    case (Continue a c p)
    with pass(2) lb have "f tr self max_logs a c p (w', evs') = Some y" by simp
    from pass(1) [OF this] obtain reqs where
      r: "reqs \<noteq> []" "pacing_events (snd (snd y)) = pacing_events evs' @ with_delays reqs"
      by auto
    from r(1) obtain q qs where "reqs = q # qs" by (cases reqs) auto
    with r(2) pe Continue have
      "pacing_events (snd (snd y)) = pacing_events (snd st) @ with_delays (?req # reqs)"
      by simp
    then show ?thesis by blast
  next
    case (Break res)
    with pass(2) lb have "y = (Inr res, w', evs')" by simp
    with pe Break have
      "pacing_events (snd (snd y)) = pacing_events (snd st) @ with_delays [?req]"
      by simp
    then show ?thesis by blast
  next
    case (Raise e)
    with pass(2) lb have "y = (Inl e, w', evs')" by simp
    with pe Raise have
      "pacing_events (snd (snd y)) = pacing_events (snd st) @ with_delays [?req]"
      by simp
    then show ?thesis by blast
  qed
qed

lemma download_all_logs_pacing:
  assumes "download_all_logs tr self max_logs (w, evs) = Some (r, w', evs')"
  shows "\<exists>reqs. reqs \<noteq> [] \<and> pacing_events evs' = pacing_events evs @ with_delays reqs"
  using download_loop_pacing [OF assms [unfolded download_all_logs_def]] by simp

text \<open>
  C4, as the code has it. In every run of \<^verbatim>\<open>download_all_logs\<close> that returns (a result or
  an exception), the requests and delays it adds to the trace are its requests, at least
  one, with one delay of 0.5 s between each two consecutive requests: no delay before the
  first request and none after the last. So the delay follows every page but the last
  one fetched. With three pages of two records followed by an empty page, the third page
  carries a cursor, the empty page is fetched by a fourth request, and the run returns
  the six records in order after three delays. The delays are two when the third page
  carries no cursor: then no fourth request is made.
\<close>

theorem one_delay_between_requests:
  "(\<forall>tr self max_logs w evs r w' evs'.
      download_all_logs tr self max_logs (w, evs) = Some (r, w', evs') \<longrightarrow>
      (\<exists>reqs. reqs \<noteq> [] \<and> pacing_events evs' = pacing_events evs @ with_delays reqs))
   \<and> returned (download_all_logs (sim_transport three_pages_then_empty) example_downloader None (0, []))
       = Some (Inr [log_entry 1, log_entry 2, log_entry 3, log_entry 4, log_entry 5, log_entry 6])
   \<and> map_option count_requests
         (trace (download_all_logs (sim_transport three_pages_then_empty) example_downloader None (0, [])))
       = Some 4
   \<and> map_option count_sleeps
         (trace (download_all_logs (sim_transport three_pages_then_empty) example_downloader None (0, [])))
       = Some 3
   \<and> returned (download_all_logs (sim_transport three_pages) example_downloader None (0, []))
       = Some (Inr [log_entry 1, log_entry 2, log_entry 3, log_entry 4, log_entry 5, log_entry 6])
   \<and> map_option count_requests
         (trace (download_all_logs (sim_transport three_pages) example_downloader None (0, [])))
       = Some 3
   \<and> map_option count_sleeps
         (trace (download_all_logs (sim_transport three_pages) example_downloader None (0, [])))
       = Some 2"
proof (intro conjI allI impI)
  fix tr :: "'w transport" and self max_logs w evs r w' evs'
  assume "download_all_logs tr self max_logs (w, evs) = Some (r, w', evs')"
  then show "\<exists>reqs. reqs \<noteq> [] \<and> pacing_events evs' = pacing_events evs @ with_delays reqs"
    by (rule download_all_logs_pacing)
next
  show "returned (download_all_logs (sim_transport three_pages_then_empty) example_downloader None (0, []))
       = Some (Inr [log_entry 1, log_entry 2, log_entry 3, log_entry 4, log_entry 5, log_entry 6])"
    by code_simp
next
  show "map_option count_requests
         (trace (download_all_logs (sim_transport three_pages_then_empty) example_downloader None (0, [])))
       = Some 4"
    by code_simp
next
  show "map_option count_sleeps
         (trace (download_all_logs (sim_transport three_pages_then_empty) example_downloader None (0, [])))
       = Some 3"
    by code_simp
next
  show "returned (download_all_logs (sim_transport three_pages) example_downloader None (0, []))
       = Some (Inr [log_entry 1, log_entry 2, log_entry 3, log_entry 4, log_entry 5, log_entry 6])"
    by code_simp
next
  show "map_option count_requests
         (trace (download_all_logs (sim_transport three_pages) example_downloader None (0, [])))
       = Some 3"
    by code_simp
next
  show "map_option count_sleeps
         (trace (download_all_logs (sim_transport three_pages) example_downloader None (0, [])))
       = Some 2"
    by code_simp
qed

theorem one_delay_between_requests_witness:
  "\<exists>r w' evs'.
     download_all_logs (sim_transport three_pages_then_empty) example_downloader None (0, [])
       = Some (r, w', evs')
     \<and> count_sleeps evs' = 3
     \<and> (\<exists>reqs. reqs \<noteq> [] \<and> pacing_events evs' = pacing_events [] @ with_delays reqs)"
proof -
  let ?run = "download_all_logs (sim_transport three_pages_then_empty) example_downloader None (0, [])"
  have "map_option count_sleeps (trace ?run) = Some 3"
    by (rule one_delay_between_requests [THEN conjunct2, THEN conjunct2, THEN conjunct2, THEN conjunct1])
  then obtain r w' evs' where run: "?run = Some (r, w', evs')" and n: "count_sleeps evs' = 3"
    by (cases ?run) (auto simp: trace_def)
  have "\<exists>reqs. reqs \<noteq> [] \<and> pacing_events evs' = pacing_events [] @ with_delays reqs"
    using one_delay_between_requests [THEN conjunct1, rule_format, OF run] .
  with run n show ?thesis by blast
qed

text \<open>
  C4 as stated fails in its scenario: the service returns three pages of two records and
  then an empty page, the run returns the six records, and the delay is invoked three
  times, not twice.
\<close>

theorem two_delays_counterexample:
  "returned (download_all_logs (sim_transport three_pages_then_empty) example_downloader None (0, []))
     = Some (Inr [log_entry 1, log_entry 2, log_entry 3, log_entry 4, log_entry 5, log_entry 6])
   \<and> map_option count_sleeps
        (trace (download_all_logs (sim_transport three_pages_then_empty) example_downloader None (0, [])))
     = Some 3
   \<and> map_option count_sleeps
        (trace (download_all_logs (sim_transport three_pages_then_empty) example_downloader None (0, [])))
     \<noteq> Some 2"
proof (intro conjI)
  show "returned (download_all_logs (sim_transport three_pages_then_empty) example_downloader None (0, []))
     = Some (Inr [log_entry 1, log_entry 2, log_entry 3, log_entry 4, log_entry 5, log_entry 6])"
    by code_simp
next
  show "map_option count_sleeps
        (trace (download_all_logs (sim_transport three_pages_then_empty) example_downloader None (0, [])))
     = Some 3"
    by code_simp
next
  show "map_option count_sleeps
        (trace (download_all_logs (sim_transport three_pages_then_empty) example_downloader None (0, [])))
     \<noteq> Some 2"
    by code_simp
qed

section \<open>The driver on the simulated service\<close>

lemma sim_fetch:
  "sim_transport pages w (logs_request self 100 (loop_cursor i)) = (Inr (sim_body pages i), Suc w)"
  by (simp add: sim_transport_def sim_index_def logs_request_def loop_cursor_def sim_cursor_def)

lemma capped_below: "\<not> cap_reached cap xs \<Longrightarrow> capped cap xs = xs"
  by (auto simp: cap_reached_def capped_def split: option.splits)

lemma capped_reached:
  "cap_reached cap xs \<Longrightarrow> cap = Some c \<Longrightarrow> 0 \<le> c \<Longrightarrow> capped cap (xs @ ys) = slice_to xs c"
  by (auto simp: cap_reached_def capped_def slice_to_def)

lemma sim_loop:
  assumes ne: "\<forall>p \<in> set (butlast pages). p \<noteq> []"
    and cap: "cap = None \<or> (\<exists>c. cap = Some c \<and> 0 \<le> c)"
  shows "n = length pages - i \<Longrightarrow> i < length pages \<or> i = 0 \<Longrightarrow> \<not> cap_reached cap acc \<Longrightarrow>
         \<exists>w' evs'. download_loop (sim_transport pages) self cap acc (loop_cursor i) page (w, evs)
                     = Some (Inr (capped cap (acc @ concat (drop i pages))), w', evs')"
proof (induction n arbitrary: i acc page w evs)
  case 0
  then have i: "i = 0" "pages = []" by auto
  let ?evs = "evs @ [print_end (''Fetching page '' @ str_int page @ ''...'') '' '']"
  have g: "get_logs (sim_transport pages) self 100 (loop_cursor i) (w, ?evs)
             = (Inr (sim_body pages i), Suc w, ?evs @ [Request (logs_request self 100 (loop_cursor i))])"
    by (rule get_logs_body) (rule sim_fetch)
  have "loop_body (sim_transport pages) self cap acc (loop_cursor i) page (w, evs)
          = (Break acc, Suc w, (?evs @ [Request (logs_request self 100 (loop_cursor i))]) @ [print ''No more logs.''])"
    using g by (rule loop_body_falsy [where logs = "JList []"])
               (simp_all add: i sim_body_def empty_page_def dict_get_def)
  then have "download_loop (sim_transport pages) self cap acc (loop_cursor i) page (w, evs)
          = Some (Inr acc, Suc w, (?evs @ [Request (logs_request self 100 (loop_cursor i))]) @ [print ''No more logs.''])"
    by (rule download_loop_break)
  with "0.prems"(3) i show ?case by (simp add: capped_below)
next
  case (Suc n)
  then have il: "i < length pages" by auto
  let ?evs = "evs @ [print_end (''Fetching page '' @ str_int page @ ''...'') '' '']"
  let ?items = "pages ! i"
  let ?m = "if Suc i < length pages then [(''cursor'', sim_cursor (Suc i))] else []"
  let ?kvs = "[(''data'', JList ?items), (''meta'', JObj ?m)]"
  have body: "sim_body pages i = JObj ?kvs" using il by (simp add: sim_body_def)
  have g: "get_logs (sim_transport pages) self 100 (loop_cursor i) (w, ?evs)
             = (Inr (JObj ?kvs), Suc w, ?evs @ [Request (logs_request self 100 (loop_cursor i))])"
    by (rule get_logs_body) (simp add: sim_fetch body)
  have dr: "drop i pages = ?items # drop (Suc i) pages"
    using il by (simp add: Cons_nth_drop_Suc)
  show ?case
  proof (cases "?items = []")
    case True
    have last: "Suc i = length pages"
    proof (rule ccontr)
      assume "Suc i \<noteq> length pages"
      with il have "i < length (butlast pages)" by simp
      then have "butlast pages ! i \<in> set (butlast pages)" by (rule nth_mem)
      moreover have "butlast pages ! i = pages ! i" using \<open>i < length (butlast pages)\<close> by (simp add: nth_butlast)
      ultimately show False using ne True by auto
    qed
    have "loop_body (sim_transport pages) self cap acc (loop_cursor i) page (w, evs)
          = (Break acc, Suc w, (?evs @ [Request (logs_request self 100 (loop_cursor i))]) @ [print ''No more logs.''])"
      using g by (rule loop_body_falsy [where logs = "JList []"])
                 (simp_all add: True dict_get_def)
    then have "download_loop (sim_transport pages) self cap acc (loop_cursor i) page (w, evs)
          = Some (Inr acc, Suc w, (?evs @ [Request (logs_request self 100 (loop_cursor i))]) @ [print ''No more logs.''])"
      by (rule download_loop_break)
    with Suc.prems(3) dr True last show ?thesis by (simp add: capped_below)
  next
    case False
    have d: "map_of ?kvs ''data'' = Some (JList ?items)" by simp
    have m: "dict_get (JObj ?kvs) ''meta'' (JObj []) = Inr (JObj ?m)" by (simp add: dict_get_def)
    let ?c = "if Suc i < length pages then sim_cursor (Suc i) else JNull"
    have c: "dict_get (JObj ?m) ''cursor'' JNull = Inr ?c" by (simp add: dict_get_def)
    note lb = loop_body_items [OF g d False m c, of cap acc]
    show ?thesis
    proof (cases "cap_reached cap (acc @ ?items)")
      case True
      then obtain c where c: "cap = Some c" "0 \<le> c" using cap by (auto simp: cap_reached_def)
      from True lb have "\<exists>st'. loop_body (sim_transport pages) self cap acc (loop_cursor i) page (w, evs)
              = (Break (slice_to (acc @ ?items) (the cap)), st')"
        by (simp add: Let_def)
      then obtain st' where "download_loop (sim_transport pages) self cap acc (loop_cursor i) page (w, evs)
              = Some (Inr (slice_to (acc @ ?items) (the cap)), st')"
        using download_loop_break by blast
      moreover have "capped cap (acc @ concat (drop i pages)) = slice_to (acc @ ?items) c"
        using capped_reached [OF True c, of "concat (drop (Suc i) pages)"] dr by simp
      ultimately show ?thesis using c by (cases st') simp
    next
      case nr: False
      show ?thesis
      proof (cases "Suc i < length pages")
        case True
        then have t: "truthy (sim_cursor (Suc i))" by (simp add: sim_cursor_def)
        from nr lb True t have "\<exists>w1 evs1. loop_body (sim_transport pages) self cap acc (loop_cursor i) page (w, evs)
              = (Continue (acc @ ?items) (sim_cursor (Suc i)) (page + 1), w1, evs1)"
          by (simp add: Let_def)
        then obtain w1 evs1 where "download_loop (sim_transport pages) self cap acc (loop_cursor i) page (w, evs)
              = download_loop (sim_transport pages) self cap (acc @ ?items) (loop_cursor (Suc i)) (page + 1) (w1, evs1)"
          using download_loop_continue by (fastforce simp: loop_cursor_def)
        moreover have "\<exists>w' evs'. download_loop (sim_transport pages) self cap (acc @ ?items) (loop_cursor (Suc i)) (page + 1) (w1, evs1)
               = Some (Inr (capped cap ((acc @ ?items) @ concat (drop (Suc i) pages))), w', evs')"
          using Suc.prems(1) True nr by (intro Suc.IH) auto
        ultimately show ?thesis using dr by simp
      next
        case False
        with il have last: "drop (Suc i) pages = []" by simp
        from nr lb False have "\<exists>st'. loop_body (sim_transport pages) self cap acc (loop_cursor i) page (w, evs)
              = (Break (acc @ ?items), st')"
          by (simp add: Let_def)
        then obtain st' where "download_loop (sim_transport pages) self cap acc (loop_cursor i) page (w, evs)
              = Some (Inr (acc @ ?items), st')"
          using download_loop_break by blast
        then show ?thesis using dr last nr by (cases st') (simp add: capped_below)
      qed
    qed
  qed
qed

text \<open>
  What the driver returns on the simulated service, for a cap of at least 1 or no cap.
  The service serves its pages in order and stops at the first page without records, so
  the pages are taken to have records, all but possibly the last. With \<open>T\<close> the number
  of records in all the pages, \<^verbatim>\<open>download_all_logs\<close> returns, and what it returns is the
  concatenation of the pages in the order they are served, cut after \<open>C\<close> records:
  \<open>min C T\<close> records, and all \<open>T\<close> of them when there is no cap or \<open>C > T\<close>.
\<close>

lemma download_all_logs_capped:
  assumes "[] \<notin> set (butlast pages)"
    and "cap = None \<or> (\<exists>c. cap = Some c \<and> 1 \<le> c)"
  shows "\<exists>logs.
           returned (download_all_logs (sim_transport pages) self cap (w, evs)) = Some (Inr logs)
           \<and> logs = (case cap of None \<Rightarrow> concat pages | Some c \<Rightarrow> take (nat c) (concat pages))
           \<and> length logs = (case cap of None \<Rightarrow> length (concat pages)
                                        | Some c \<Rightarrow> min (nat c) (length (concat pages)))
           \<and> ((cap = None \<or> (\<exists>c. cap = Some c \<and> int (length (concat pages)) < c))
                \<longrightarrow> logs = concat pages)"
proof -
  have ne: "\<forall>p \<in> set (butlast pages). p \<noteq> []" using assms(1) by auto
  have cap: "cap = None \<or> (\<exists>c. cap = Some c \<and> 0 \<le> c)" using assms(2) by auto
  have start: "\<not> cap_reached cap []"
    using assms(2) by (auto simp: cap_reached_def)
  have "\<exists>w' evs'. download_loop (sim_transport pages) self cap [] (loop_cursor 0) 1
                      (w, evs @ [print ''Starting log download...''])
                    = Some (Inr (capped cap ([] @ concat (drop 0 pages))), w', evs')"
    using ne cap _ _ start by (rule sim_loop) simp_all
  then have run: "returned (download_all_logs (sim_transport pages) self cap (w, evs))
                    = Some (Inr (capped cap (concat pages)))"
    by (auto simp: download_all_logs_def loop_cursor_def returned_def)
  have shape: "capped cap (concat pages)
                 = (case cap of None \<Rightarrow> concat pages | Some c \<Rightarrow> take (nat c) (concat pages))"
    using assms(2) by (auto simp: capped_def)
  show ?thesis
    using run shape assms(2) by (auto simp: min_def)
qed

text \<open>
  C1. For every cap \<open>C\<close> and every total \<open>T\<close> of the simulated service,
  \<^verbatim>\<open>download_all_logs\<close> is to return \<open>min C T\<close> records when \<open>C \<le> T\<close>, in the order of
  delivery; the docstring of the method gives \<^verbatim>\<open>max_logs\<close> as the maximum number of logs
  to download, with \<^verbatim>\<open>None\<close> for all. The code does not do so at the cap 0. Its test
  \<^verbatim>\<open>if max_logs and len(all_logs) >= max_logs\<close> is false for \<^verbatim>\<open>max_logs = 0\<close> whatever the
  buffer holds, so the buffer is never cut: on the service with three pages of two
  records, the run with the cap 0 returns the six records, not \<open>min 0 6 = 0\<close> of them,
  where the run with the cap 1 returns one record.
\<close>

theorem cap_zero_returns_all_records:
  "(\<forall>all_logs. \<not> cap_reached (Some 0) all_logs)
   \<and> returned (download_all_logs (sim_transport three_pages) example_downloader (Some 0) (0, []))
       = Some (Inr [log_entry 1, log_entry 2, log_entry 3, log_entry 4, log_entry 5, log_entry 6])
   \<and> length [log_entry 1, log_entry 2, log_entry 3, log_entry 4, log_entry 5, log_entry 6]
       \<noteq> min (nat 0) (length (concat three_pages))
   \<and> returned (download_all_logs (sim_transport three_pages) example_downloader (Some 1) (0, []))
       = Some (Inr [log_entry 1])"
proof (intro conjI allI)
  fix all_logs
  show "\<not> cap_reached (Some 0) all_logs"
    by (simp add: cap_reached_def)
next
  show "returned (download_all_logs (sim_transport three_pages) example_downloader (Some 0) (0, []))
     = Some (Inr [log_entry 1, log_entry 2, log_entry 3, log_entry 4, log_entry 5, log_entry 6])"
    by code_simp
next
  show "length [log_entry 1, log_entry 2, log_entry 3, log_entry 4, log_entry 5, log_entry 6]
     \<noteq> min (nat 0) (length (concat three_pages))"
    by simp
next
  show "returned (download_all_logs (sim_transport three_pages) example_downloader (Some 1) (0, []))
     = Some (Inr [log_entry 1])"
    by code_simp
qed

section \<open>The command line and the output files\<close>

lemma file_events_append [simp]: "file_events (xs @ ys) = file_events xs @ file_events ys"
  by (simp add: file_events_def)

lemma file_events_simps [simp]:
  "file_events [] = []"
  "file_events (print s # evs) = file_events evs"
  "file_events (print_end s e # evs) = file_events evs"
  "file_events (Request r # evs) = file_events evs"
  "file_events (pacing_delay # evs) = file_events evs"
  by (simp_all add: file_events_def print_def print_end_def pacing_delay_def)

lemma get_logs_file_events:
  "get_logs tr self limit cursor (w, evs) = (r, w', evs') \<Longrightarrow> file_events evs' = file_events evs"
  by (auto simp: get_logs_def Let_def split: prod.splits sum.splits error.splits)

lemma loop_body_file_events:
  assumes "loop_body tr self max_logs all_logs cursor page (w, evs) = (s, w', evs')"
  shows "file_events evs' = file_events evs"
proof -
  obtain r w1 evs1 where g:
    "get_logs tr self 100 cursor
       (w, evs @ [print_end (''Fetching page '' @ str_int page @ ''...'') '' '']) = (r, w1, evs1)"
    by (metis prod_cases3)
  have p: "file_events evs1 = file_events evs"
    using get_logs_file_events [OF g] by simp
  show ?thesis
    using assms g p
    by (auto simp: loop_body_def Let_def split: sum.splits if_splits)
qed

lemma download_loop_file_events:
  assumes "download_loop tr self max_logs all_logs cursor page st = Some y"
  shows "file_events (snd (snd y)) = file_events (snd st)"
  using assms
proof (induction rule: download_loop.raw_induct [rotated 1, consumes 1, case_names pass])
  case (pass f tr self max_logs all_logs cursor page st y)
  obtain s w' evs' where
    lb: "loop_body tr self max_logs all_logs cursor page (fst st, snd st) = (s, w', evs')"
    by (metis prod_cases3)
  note fe = loop_body_file_events [OF lb]
  show ?case
  proof (cases s)
    case (Continue a c p)
    with pass(2) lb have "f tr self max_logs a c p (w', evs') = Some y" by simp
    from pass(1) [OF this] fe show ?thesis by simp
  next
    case (Break res)
    with pass(2) lb fe show ?thesis by auto
  next
    case (Raise e)
    with pass(2) lb fe show ?thesis by auto
  qed
qed

lemma download_all_logs_file_events:
  assumes "download_all_logs tr self max_logs (w, evs) = Some (r, w', evs')"
  shows "file_events evs' = file_events evs"
  using download_loop_file_events [OF assms [unfolded download_all_logs_def]] by simp

text \<open>
  C3, as the code has it. When the API key is given neither by \<^verbatim>\<open>--api-key\<close> nor by
  \<^verbatim>\<open>NEXTDNS_API_KEY\<close>, or the profile neither by \<^verbatim>\<open>--profile\<close> nor by
  \<^verbatim>\<open>NEXTDNS_PROFILE_ID\<close>, \<^verbatim>\<open>main\<close> ends in \<^verbatim>\<open>parser.error\<close>: the exit status is 2, the
  trace holds the usage error and nothing else (no request was sent), and the state of
  the service is untouched.
\<close>

theorem missing_credentials_exit_status_2:
  assumes "(flag_api_key c = None \<and> NEXTDNS_API_KEY env = None)
           \<or> (flag_profile c = None \<and> NEXTDNS_PROFILE_ID env = None)"
  shows "main tr repr c env w
           = Some (2, w,
                   [UsageError
                      (if truthy_str (arg_api_key (parse_args c env))
                       then ''--profile is required (or set NEXTDNS_PROFILE_ID environment variable)''
                       else ''--api-key is required (or set NEXTDNS_API_KEY environment variable)'')])
         \<and> exit_status (main tr repr c env w) = Some 2"
proof -
  have "\<not> truthy_str (arg_api_key (parse_args c env))
        \<or> \<not> truthy_str (arg_profile (parse_args c env))"
    using assms by (auto simp: parse_args_def truthy_str_def)
  then show ?thesis
    by (auto simp: main_def Let_def parser_error_def exit_status_def)
qed

theorem missing_credentials_exit_status_2_witness:
  "flag_api_key no_key_cli = None \<and> NEXTDNS_API_KEY empty_environ = None
   \<and> main (sim_transport three_pages) example_repr no_key_cli empty_environ 0
       = Some (2, 0, [UsageError ''--api-key is required (or set NEXTDNS_API_KEY environment variable)''])"
proof -
  have h: "flag_api_key no_key_cli = None \<and> NEXTDNS_API_KEY empty_environ = None"
    by (simp add: no_key_cli_def example_cli_def empty_environ_def)
  then have "(flag_api_key no_key_cli = None \<and> NEXTDNS_API_KEY empty_environ = None)
             \<or> (flag_profile no_key_cli = None \<and> NEXTDNS_PROFILE_ID empty_environ = None)"
    by simp
  from missing_credentials_exit_status_2 [OF this, of "sim_transport three_pages" example_repr 0] h
  show ?thesis
    by (simp add: parse_args_def truthy_str_def)
qed

text \<open>
  C3 as stated fails: without an API key the process ends with status 2, not 1.
\<close>

theorem exit_status_1_counterexample:
  "exit_status (main (sim_transport three_pages) example_repr no_key_cli empty_environ 0) = Some 2
   \<and> exit_status (main (sim_transport three_pages) example_repr no_key_cli empty_environ 0) \<noteq> Some 1"
proof (intro conjI)
  show "exit_status (main (sim_transport three_pages) example_repr no_key_cli empty_environ 0) = Some 2"
    by code_simp
next
  show "exit_status (main (sim_transport three_pages) example_repr no_key_cli empty_environ 0) \<noteq> Some 1"
    by code_simp
qed

text \<open>
  C2, as the code has it. With both \<^verbatim>\<open>--json-only\<close> and \<^verbatim>\<open>--csv-only\<close>, on a run whose
  download returns at least one record, \<^verbatim>\<open>main\<close> skips \<^verbatim>\<open>save_to_json\<close> (because of
  \<^verbatim>\<open>--csv-only\<close>) and \<^verbatim>\<open>save_to_csv\<close> (because of \<^verbatim>\<open>--json-only\<close>): after the download it
  only prints the closing message and ends with status 0. No file is opened or written
  in the whole run.
\<close>

theorem both_only_flags_write_no_file:
  assumes "truthy_str (arg_api_key (parse_args c env))"
    and "truthy_str (arg_profile (parse_args c env))"
    and "flag_json_only c"
    and "flag_csv_only c"
    and "download_all_logs tr
           \<lparr>self_api_key = the (arg_api_key (parse_args c env)),
            self_profile_id = the (arg_profile (parse_args c env))\<rparr>
           (flag_max_logs c) (w, [])
         = Some (Inr logs, w', evs)"
    and "logs \<noteq> []"
  shows "main tr repr c env w
           = Some (0, w',
                   evs @ [print ([CHR 0x0A] @ ''Download complete! Total logs: ''
                                 @ str_int (int (length logs)))])
         \<and> file_events (evs @ [print ([CHR 0x0A] @ ''Download complete! Total logs: ''
                                       @ str_int (int (length logs)))]) = []"
proof -
  have a: "arg_json_only (parse_args c env)" "arg_csv_only (parse_args c env)"
          "arg_max_logs (parse_args c env) = flag_max_logs c"
    using assms(3,4) by (simp_all add: parse_args_def)
  have m: "main tr repr c env w
           = Some (0, w',
                   evs @ [print ([CHR 0x0A] @ ''Download complete! Total logs: ''
                                 @ str_int (int (length logs)))])"
    using assms(1,2,5,6) a by (simp add: main_def Let_def)
  have "file_events evs = file_events []"
    using assms(5) by (rule download_all_logs_file_events)
  with m show ?thesis by simp
qed

theorem both_only_flags_write_no_file_witness:
  "\<exists>logs w' evs.
     download_all_logs (sim_transport three_pages)
         \<lparr>self_api_key = the (arg_api_key (parse_args both_only_cli empty_environ)),
          self_profile_id = the (arg_profile (parse_args both_only_cli empty_environ))\<rparr>
         (flag_max_logs both_only_cli) (0, [])
       = Some (Inr logs, w', evs)
     \<and> logs \<noteq> []
     \<and> flag_json_only both_only_cli \<and> flag_csv_only both_only_cli
     \<and> main (sim_transport three_pages) example_repr both_only_cli empty_environ 0
         = Some (0, w',
                 evs @ [print ([CHR 0x0A] @ ''Download complete! Total logs: ''
                               @ str_int (int (length logs)))])"
proof -
  let ?run = "download_all_logs (sim_transport three_pages)
         \<lparr>self_api_key = the (arg_api_key (parse_args both_only_cli empty_environ)),
          self_profile_id = the (arg_profile (parse_args both_only_cli empty_environ))\<rparr>
         (flag_max_logs both_only_cli) (0, [])"
  have "returned ?run
          = Some (Inr [log_entry 1, log_entry 2, log_entry 3, log_entry 4, log_entry 5, log_entry 6])"
    by code_simp
  then obtain w' evs where
    run: "?run = Some (Inr [log_entry 1, log_entry 2, log_entry 3, log_entry 4, log_entry 5, log_entry 6],
                       w', evs)"
    by (cases ?run) (auto simp: returned_def)
  have k: "truthy_str (arg_api_key (parse_args both_only_cli empty_environ))"
          "truthy_str (arg_profile (parse_args both_only_cli empty_environ))"
    by code_simp+
  have f: "flag_json_only both_only_cli" "flag_csv_only both_only_cli"
    by (simp_all add: both_only_cli_def)
  have ne: "[log_entry 1, log_entry 2, log_entry 3, log_entry 4, log_entry 5, log_entry 6] \<noteq> []"
    by simp
  from both_only_flags_write_no_file [OF k f run ne, of example_repr] run ne f
  show ?thesis by blast
qed

text \<open>
  C2 as stated fails: with both flags, on a run that downloads six records, the process
  ends with status 0 and its trace holds no file event at all, where the claim has both
  files written.
\<close>

theorem both_files_written_counterexample:
  "exit_status (main (sim_transport three_pages) example_repr both_only_cli empty_environ 0) = Some 0
   \<and> map_option file_events
        (trace (main (sim_transport three_pages) example_repr both_only_cli empty_environ 0))
     = Some []
   \<and> map_option file_events
        (trace (main (sim_transport three_pages) example_repr example_cli empty_environ 0))
     \<noteq> Some []"
proof (intro conjI)
  show "exit_status (main (sim_transport three_pages) example_repr both_only_cli empty_environ 0) = Some 0"
    by code_simp
next
  show "map_option file_events
        (trace (main (sim_transport three_pages) example_repr both_only_cli empty_environ 0))
     = Some []"
    by code_simp
next
  show "map_option file_events
        (trace (main (sim_transport three_pages) example_repr example_cli empty_environ 0))
     \<noteq> Some []"
    by code_simp
qed

section \<open>Properties of the flattener\<close>

lemma dict_set_keys:
  "map fst (dict_set k v d) = (if k \<in> set (map fst d) then map fst d else map fst d @ [k])"
  by (induction d) auto



lemma dict_fold_distinct:
  "distinct (map fst acc) \<Longrightarrow>
   distinct (map fst (foldl (\<lambda>d kv. dict_set (fst kv) (snd kv) d) acc xs))"
  by (induction xs arbitrary: acc) (simp_all add: dict_set_keys)



lemma dict_of_items_distinct: "distinct (map fst (dict_of_items xs))"
  unfolding dict_of_items_def by (rule dict_fold_distinct) simp




lemma flatten_dict_distinct: "distinct (map fst (flatten_dict repr d p sep))"
  by (simp add: dict_of_items_distinct)























section \<open>The CSV export\<close>

lemma flatten_record_dict: "flatten_record repr (JObj d) = Inr (flatten_dict repr d [] ''_'')"
  by (simp add: flatten_record_def)

lemma collect_fieldnames_dicts:
  "collect_fieldnames repr (map JObj ds) names
     = Inr (names \<union> (\<Union>d \<in> set ds. fst ` set (flatten_dict repr d [] ''_'')))"
  by (induction ds arbitrary: names) (auto simp: flatten_record_dict simp del: flatten_dict.simps)

lemma dict_to_list_covered:
  assumes "fst ` set rowdict \<subseteq> set fieldnames"
  shows "dict_to_list repr fieldnames rowdict
           = Inr (map (\<lambda>key. case map_of rowdict key of Some v \<Rightarrow> v | None \<Rightarrow> JStr []) fieldnames)"
proof -
  have "filter (\<lambda>k. k \<notin> set fieldnames) (map fst rowdict) = []"
    using assms by (auto simp: filter_empty_conv)
  then show ?thesis by (simp add: dict_to_list_def)
qed

lemma write_rows_dicts:
  assumes "\<forall>d \<in> set ds. fst ` set (flatten_dict repr d [] ''_'') \<subseteq> set header"
  shows "write_rows repr header filename (map JObj ds) evs
           = (Inr (), evs @ map (\<lambda>d. CsvRow filename (row_cells repr header d)) ds)"
  using assms
proof (induction ds arbitrary: evs)
  case Nil
  then show ?case by simp
next
  case (Cons d ds)
  then have "dict_to_list repr header (flatten_dict repr d [] ''_'') = Inr (row_cells repr header d)"
    unfolding row_cells_def by (intro dict_to_list_covered) simp
  with Cons show ?case
    by (simp add: flatten_record_dict del: flatten_dict.simps)
qed

lemma finite_key_union: "finite (\<Union>d \<in> set ds. fst ` set (flatten_dict repr d [] ''_''))"
  by blast

lemma sorted_key_union_set:
  "set (sorted_key_union repr ds) = (\<Union>d \<in> set ds. fst ` set (flatten_dict repr d [] ''_''))"
  unfolding sorted_key_union_def using finite_key_union by (rule set_sorted_list_of_set)

lemma save_to_csv_dicts:
  assumes "ds \<noteq> []"
  shows "save_to_csv repr (map JObj ds) filename evs
           = (Inr (),
              evs @ [OpenFile filename, CsvHeader filename (sorted_key_union repr ds)]
                  @ map (\<lambda>d. CsvRow filename (row_cells repr (sorted_key_union repr ds) d)) ds
                  @ [print (''Saved '' @ str_int (int (length ds)) @ '' logs to '' @ filename)])"
proof -
  have c: "collect_fieldnames repr (map JObj ds) {}
             = Inr (\<Union>d \<in> set ds. fst ` set (flatten_dict repr d [] ''_''))"
    by (simp add: collect_fieldnames_dicts del: flatten_dict.simps)
  have w: "write_rows repr (sorted_key_union repr ds) filename (map JObj ds) evs'
             = (Inr (), evs' @ map (\<lambda>d. CsvRow filename (row_cells repr (sorted_key_union repr ds) d)) ds)"
    for evs'
    by (rule write_rows_dicts) (auto simp: sorted_key_union_set simp del: flatten_dict.simps)
  show ?thesis
    using assms
    by (simp add: save_to_csv_def c Let_def sorted_key_union_def [symmetric] w del: flatten_dict.simps)
qed

lemma row_cells_present:
  assumes "(key, v) \<in> set (flatten_dict repr d [] ''_'')"
  shows "row_cells repr [key] d = [v]"
proof -
  have "distinct (map fst (flatten_dict repr d [] ''_''))"
    by (rule flatten_dict_distinct)
  then have "map_of (flatten_dict repr d [] ''_'') key = Some v"
    using assms by (rule map_of_is_SomeI)
  then show ?thesis by (simp add: row_cells_def del: flatten_dict.simps)
qed

lemma row_cells_absent:
  assumes "key \<notin> fst ` set (flatten_dict repr d [] ''_'')"
  shows "row_cells repr [key] d = [JStr []]"
proof -
  have "map_of (flatten_dict repr d [] ''_'') key = None"
    using assms by (simp add: map_of_eq_None_iff del: flatten_dict.simps)
  then show ?thesis by (simp add: row_cells_def del: flatten_dict.simps)
qed

text \<open>
  C9. For a non-empty list of records (dictionaries), \<^verbatim>\<open>save_to_csv\<close> raises nothing and
  does, in this order: open the file, write the header, write one row per record in the
  order of the list, print the count. The header is the sorted list, without
  repetition, of the flattened keys of all the records, and is written before the first
  row; in a row, the cell under a key is the record's flattened value for that key, and
  the empty string when the record has no such key. For the empty list nothing is
  opened or written, and the exporter prints that there is nothing to save.
\<close>

theorem save_to_csv_header_and_rows:
  "(ds \<noteq> [] \<longrightarrow>
      save_to_csv repr (map JObj ds) filename evs
        = (Inr (),
           evs @ [OpenFile filename, CsvHeader filename (sorted_key_union repr ds)]
               @ map (\<lambda>d. CsvRow filename (row_cells repr (sorted_key_union repr ds) d)) ds
               @ [print (''Saved '' @ str_int (int (length ds)) @ '' logs to '' @ filename)]))
   \<and> sorted (sorted_key_union repr ds)
   \<and> distinct (sorted_key_union repr ds)
   \<and> set (sorted_key_union repr ds) = (\<Union>d \<in> set ds. fst ` set (flatten_dict repr d [] ''_''))
   \<and> (\<forall>d key v. (key, v) \<in> set (flatten_dict repr d [] ''_'') \<longrightarrow> row_cells repr [key] d = [v])
   \<and> (\<forall>d key. key \<notin> fst ` set (flatten_dict repr d [] ''_'') \<longrightarrow> row_cells repr [key] d = [JStr []])
   \<and> (\<forall>d header. length (row_cells repr header d) = length header)
   \<and> save_to_csv repr [] filename evs = (Inr (), evs @ [print ''No logs to save to CSV''])"
proof (intro conjI allI impI)
  assume "ds \<noteq> []"
  then show "save_to_csv repr (map JObj ds) filename evs
        = (Inr (),
           evs @ [OpenFile filename, CsvHeader filename (sorted_key_union repr ds)]
               @ map (\<lambda>d. CsvRow filename (row_cells repr (sorted_key_union repr ds) d)) ds
               @ [print (''Saved '' @ str_int (int (length ds)) @ '' logs to '' @ filename)])"
    by (rule save_to_csv_dicts)
next
  show "sorted (sorted_key_union repr ds)"
    unfolding sorted_key_union_def by (rule sorted_sorted_list_of_set)
next
  show "distinct (sorted_key_union repr ds)"
    unfolding sorted_key_union_def by (rule distinct_sorted_list_of_set)
next
  show "set (sorted_key_union repr ds) = (\<Union>d \<in> set ds. fst ` set (flatten_dict repr d [] ''_''))"
    by (rule sorted_key_union_set)
next
  fix d key v
  assume "(key, v) \<in> set (flatten_dict repr d [] ''_'')"
  then show "row_cells repr [key] d = [v]" by (rule row_cells_present)
next
  fix d key
  assume "key \<notin> fst ` set (flatten_dict repr d [] ''_'')"
  then show "row_cells repr [key] d = [JStr []]" by (rule row_cells_absent)
next
  fix d header
  show "length (row_cells repr header d) = length header"
    by (simp add: row_cells_def del: flatten_dict.simps)
next
  show "save_to_csv repr [] filename evs = (Inr (), evs @ [print ''No logs to save to CSV''])"
    by (simp add: save_to_csv_def)
qed

theorem save_to_csv_header_and_rows_witness:
  "[example_record_1, example_record_2] \<noteq> []
   \<and> save_to_csv example_repr [JObj example_record_1, JObj example_record_2] ''out.csv'' []
       = (Inr (),
          [OpenFile ''out.csv'',
           CsvHeader ''out.csv'' [''a_x'', ''b'', ''c''],
           CsvRow ''out.csv'' [JStr ''u'', JNum 1, JStr []],
           CsvRow ''out.csv'' [JStr [], JStr [], JStr ''1, True, None''],
           print ''Saved 2 logs to out.csv''])"
proof -
  have ne: "[example_record_1, example_record_2] \<noteq> []" by simp
  have h: "sorted_key_union example_repr [example_record_1, example_record_2] = [''a_x'', ''b'', ''c'']"
    by code_simp
  have r1: "row_cells example_repr [''a_x'', ''b'', ''c''] example_record_1 = [JStr ''u'', JNum 1, JStr []]"
    by code_simp
  have r2: "row_cells example_repr [''a_x'', ''b'', ''c''] example_record_2
              = [JStr [], JStr [], JStr ''1, True, None'']"
    by code_simp
  have s: "str_int 2 = ''2''"
    by (simp add: str_int_def str_nat.simps digit_char_def)
  from save_to_csv_header_and_rows
         [of "[example_record_1, example_record_2]" example_repr "''out.csv''" "[]",
          THEN conjunct1, rule_format, OF ne]
  show ?thesis by (simp add: h r1 r2 s)
qed

end
